theory Spec2Isabelle
  imports Main "HOL-Library.Word" "HOL-Library.Log_Nat"
begin

unbundle bit_operations_syntax

section \<open>Machine arithmetic\<close>

text \<open>
  The tag store computes with \<open>unsigned\<close> (32 bits), \<open>int\<close> (32 bits, two's complement)
  and \<open>std::size_t\<close> (64 bits on the hosts gem5 runs on). The values are kept as
  mathematical integers and every conversion is written out.
\<close>

definition to_uint32 :: "int \<Rightarrow> int" where
  "to_uint32 x = x mod 2 ^ 32"

definition to_int32 :: "int \<Rightarrow> int" where
  "to_int32 x = (x + 2 ^ 31) mod 2 ^ 32 - 2 ^ 31"

definition to_size_t :: "int \<Rightarrow> int" where
  "to_size_t x = x mod 2 ^ 64"

section \<open>Cache blocks\<close>

text \<open>
  \<open>CacheBlk\<close> (mem/cache/cache_blk.hh) is declared outside the files at hand; the tag
  store reads \<open>isValid()\<close>, \<open>matchTag(tag, is_secure)\<close> and the member \<open>cSize\<close> of a
  block and writes its \<open>lastTouchTick\<close>. The record keeps the fields those accesses need. The
  member \<open>cSize\<close> is an unsigned quantity whose width is not visible, so it is a
  natural number and \<open>(cSize + 63) / 64\<close> is computed exactly.
\<close>

type_synonym Addr = nat
type_synonym blkptr = nat

record CacheBlk =
  valid :: bool
  tag :: Addr
  secure :: bool
  cSize :: nat
  lastTouchTick :: nat

type_synonym heap = "blkptr \<Rightarrow> CacheBlk"

definition isValid :: "CacheBlk \<Rightarrow> bool" where
  "isValid b = valid b"

text \<open>
  Modelled from the spec: \<open>TaggedEntry::matchTag\<close> is missing from the source files; the
  spec calls an entry matched when it is valid and its \<open>(tag, secure)\<close> equals the
  requested \<open>(tag, secure)\<close>.
\<close>

definition matchTag :: "CacheBlk \<Rightarrow> Addr \<Rightarrow> bool \<Rightarrow> bool" where
  "matchTag b t s = (valid b \<and> tag b = t \<and> secure b = s)"

text \<open>The expression \<open>(cSize + 63) / 64\<close>: a size converted to segments.\<close>

definition segs :: "nat \<Rightarrow> int" where
  "segs c = int ((c + 63) div 64)"

section \<open>The compressed replacement decision\<close>

text \<open>
  The local variables of \<open>BaseSetAssoc::findCompressedDataReplacement\<close> after the scan
  of the set: \<open>replacement\<close>, \<open>update_blk\<close> (both may be \<open>NULL\<close>), \<open>valid_blocks\<close>,
  \<open>segments\<close> (an \<open>unsigned\<close>) and the caller's vector \<open>evicts\<close>.
\<close>

record scan_state =
  replacement :: "blkptr option"
  update_blk :: "blkptr option"
  valid_blocks :: "blkptr list"
  segments :: int
  evicts :: "blkptr list"

definition scan_init :: "blkptr list \<Rightarrow> scan_state" where
  "scan_init ev = \<lparr>replacement = None, update_blk = None, valid_blocks = [],
                   segments = 0, evicts = ev\<rparr>"

text \<open>One iteration of the loop over the blocks of the set (lines 139 to 158).\<close>

definition scan_step :: "heap \<Rightarrow> Addr \<Rightarrow> bool \<Rightarrow> bool \<Rightarrow> scan_state \<Rightarrow> blkptr \<Rightarrow> scan_state" where
  "scan_step h tg is_secure update_expansion st block =
     (if isValid (h block) then
        (if matchTag (h block) tg is_secure \<and> update_expansion then
           st\<lparr>update_blk := Some block, replacement := Some block\<rparr>
         else
           st\<lparr>valid_blocks := valid_blocks st @ [block],
              segments := to_uint32 (segments st + segs (cSize (h block)))\<rparr>)
      else
        st\<lparr>replacement := Some block, evicts := evicts st @ [block]\<rparr>)"

fun scan_blocks :: "heap \<Rightarrow> Addr \<Rightarrow> bool \<Rightarrow> bool \<Rightarrow> blkptr list \<Rightarrow> scan_state \<Rightarrow> scan_state" where
  "scan_blocks h tg is_secure update_expansion [] st = st"
| "scan_blocks h tg is_secure update_expansion (block # blocks) st =
     scan_blocks h tg is_secure update_expansion blocks
       (scan_step h tg is_secure update_expansion st block)"

text \<open>
  Line 162: \<open>int extra_segments = (req_size + 63) / 64 - (max_set_segments - segments)\<close>.
  The quotient is a \<open>size_t\<close>, the difference in brackets is an \<open>unsigned\<close> that wraps
  when \<open>segments\<close> exceeds 32, the outer difference is a \<open>size_t\<close>, and the
  initialisation of the \<open>int\<close> keeps its low 32 bits.
\<close>

definition max_set_segments :: int where
  "max_set_segments = 32"

definition needed_segments :: "nat \<Rightarrow> int" where
  "needed_segments req_size = to_size_t (int req_size + 63) div 64"

definition initial_extra :: "nat \<Rightarrow> int \<Rightarrow> int" where
  "initial_extra req_size sg =
     to_int32 (to_size_t (needed_segments req_size - to_uint32 (max_set_segments - sg)))"

text \<open>
  The replacement policy is a parameter: \<open>getVictim\<close> receives the candidate list and
  returns an entry, or no entry (\<open>None\<close>: a null pointer, or a policy that aborts on
  an empty list). The code dereferences the result without a test, so no entry is a
  fault.
\<close>

type_synonym policy = "blkptr list \<Rightarrow> blkptr option"

datatype fault = NullDereference

text \<open>
  What a call hands back: the returned block, the vector \<open>evicts\<close>, and (for the
  statements about the policy) the candidate lists \<open>getVictim\<close> was called with, in
  order.
\<close>

record decision =
  target :: blkptr
  evicted :: "blkptr list"
  consulted :: "blkptr list list"

text \<open>
  The state between the two halves of the function: \<open>replacement\<close> (now non-null),
  \<open>extra_segments\<close>, \<open>evicts\<close> and the policy calls so far.
\<close>

record pick_state =
  chosen :: blkptr
  extra_segments :: int
  evicts_now :: "blkptr list"
  calls :: "blkptr list list"

text \<open>Lines 165 to 170: the first victim, and the first subtraction.\<close>

definition first_pick :: "policy \<Rightarrow> heap \<Rightarrow> scan_state \<Rightarrow> int \<Rightarrow> fault + pick_state" where
  "first_pick getVictim h st extra =
     (if 0 < extra \<or> replacement st = None then
        (case getVictim (valid_blocks st) of
           None \<Rightarrow> Inl NullDereference
         | Some v \<Rightarrow>
             Inr \<lparr>chosen = v,
                  extra_segments = to_int32 (extra - segs (cSize (h v))),
                  evicts_now = evicts st @ [v],
                  calls = [valid_blocks st]\<rparr>)
      else
        (case replacement st of
           None \<Rightarrow> Inl NullDereference
         | Some r \<Rightarrow>
             Inr \<lparr>chosen = r,
                  extra_segments = to_int32 (extra - segs (cSize (h r))),
                  evicts_now = evicts st,
                  calls = []\<rparr>))"

text \<open>Lines 177 to 182: the valid blocks large enough, other than the replacement.\<close>

definition large_blocks :: "heap \<Rightarrow> blkptr list \<Rightarrow> int \<Rightarrow> blkptr \<Rightarrow> blkptr list" where
  "large_blocks h vbs extra r =
     filter (\<lambda>block. extra \<le> segs (cSize (h block)) \<and> block \<noteq> r) vbs"

text \<open>Lines 173 to 191: the second victim.\<close>

definition second_pick :: "policy \<Rightarrow> heap \<Rightarrow> scan_state \<Rightarrow> pick_state \<Rightarrow> fault + pick_state" where
  "second_pick getVictim h st ps =
     (if 0 < extra_segments ps then
        (let lb = large_blocks h (valid_blocks st) (extra_segments ps) (chosen ps) in
         if lb \<noteq> [] then
           (case getVictim lb of
              None \<Rightarrow> Inl NullDereference
            | Some v \<Rightarrow>
                Inr \<lparr>chosen = v,
                     extra_segments = to_int32 (extra_segments ps - segs (cSize (h v))),
                     evicts_now = evicts_now ps @ [v],
                     calls = calls ps @ [lb]\<rparr>)
         else
           Inr (ps\<lparr>extra_segments :=
                      to_int32 (extra_segments ps - segs (cSize (h (chosen ps))))\<rparr>))
      else
        Inr (ps\<lparr>extra_segments :=
                   to_int32 (extra_segments ps - segs (cSize (h (chosen ps))))\<rparr>))"

text \<open>
  \<open>BaseSetAssoc::findCompressedDataReplacement\<close>. The arguments \<open>blocks\<close> and \<open>tg\<close> are
  \<open>indexingPolicy->getPossibleEntries(addr)\<close> and \<open>extractTag(addr)\<close>; \<open>evicts0\<close> is
  the content of the caller's vector at the call.
\<close>

definition findCompressedDataReplacement ::
  "policy \<Rightarrow> heap \<Rightarrow> blkptr list \<Rightarrow> Addr \<Rightarrow> bool \<Rightarrow> nat \<Rightarrow> blkptr list \<Rightarrow> bool
     \<Rightarrow> fault + decision" where
  "findCompressedDataReplacement getVictim h blocks tg is_secure req_size evicts0
       update_expansion =
     (let st = scan_blocks h tg is_secure update_expansion blocks (scan_init evicts0) in
      case first_pick getVictim h st (initial_extra req_size (segments st)) of
        Inl e \<Rightarrow> Inl e
      | Inr ps \<Rightarrow>
          (case second_pick getVictim h st ps of
             Inl e \<Rightarrow> Inl e
           | Inr ps' \<Rightarrow>
               Inr \<lparr>target = (case update_blk st of Some u \<Rightarrow> u | None \<Rightarrow> chosen ps'),
                    evicted = evicts_now ps',
                    consulted = calls ps'\<rparr>))"


section \<open>Acting on a decision\<close>

text \<open>
  \<open>BaseSetAssoc::invalidate\<close>: the base class clears the block, then the tag store zeroes
  \<open>lastTouchTick\<close>. The counter \<open>tagsInUse\<close> and the replacement data live outside the
  block and are not part of the heap.
  Modelled from the spec: \<open>BaseTags::invalidate\<close> is missing from the source files; the
  spec says that invalidation clears \<open>valid\<close>.
\<close>

definition invalidate :: "heap \<Rightarrow> blkptr \<Rightarrow> heap" where
  "invalidate h blk = h(blk := (h blk)\<lparr>valid := False, lastTouchTick := 0\<rparr>)"

text \<open>
  Modelled from the spec: the cache controller that calls
  \<open>findCompressedDataReplacement\<close> and acts on its decision is missing from the source
  files. The spec makes the caller responsible for writing the data and updating the
  entry's metadata after the call: every evicted entry is invalidated, then the line of
  \<open>req_size\<close> units is written into the target at time \<open>now\<close>.
\<close>

definition install :: "heap \<Rightarrow> decision \<Rightarrow> Addr \<Rightarrow> bool \<Rightarrow> nat \<Rightarrow> nat \<Rightarrow> heap" where
  "install h d tg is_secure req_size now =
     (fold (\<lambda>blk h'. invalidate h' blk) (evicted d) h)
       (target d := \<lparr>valid = True, tag = tg, secure = is_secure, cSize = req_size,
                     lastTouchTick = now\<rparr>)"

text \<open>The segments held by the valid entries of a set, as an exact sum.\<close>

definition occupied_segments :: "heap \<Rightarrow> blkptr list \<Rightarrow> int" where
  "occupied_segments h blocks =
     sum_list (map (\<lambda>block. segs (cSize (h block))) (filter (\<lambda>block. isValid (h block)) blocks))"

section \<open>Test scenarios\<close>

text \<open>A policy stub that returns the candidate with the highest index.\<close>

definition highest_index :: policy where
  "highest_index candidates =
     (case candidates of [] \<Rightarrow> None | c # cs \<Rightarrow> Some (fold max cs c))"

definition mk_blk :: "bool \<Rightarrow> Addr \<Rightarrow> bool \<Rightarrow> nat \<Rightarrow> CacheBlk" where
  "mk_blk v t s c = \<lparr>valid = v, tag = t, secure = s, cSize = c, lastTouchTick = 1\<rparr>"

text \<open>
  The forced multi-eviction set: ways 0, 1 and 2 are valid, hold tags other than the
  requested tag 9 and need 20, 10 and 5 segments; way 3 is the block \<open>b3\<close>.
\<close>

definition forced_heap :: "CacheBlk \<Rightarrow> heap" where
  "forced_heap b3 =
     (\<lambda>p. if p = 0 then mk_blk True 1 False 1280
          else if p = 1 then mk_blk True 2 False 640
          else if p = 2 then mk_blk True 3 False 320
          else b3)"

text \<open>A set whose blocks are all free.\<close>

definition all_free_heap :: heap where
  "all_free_heap = (\<lambda>p. mk_blk False 0 False 0)"

text \<open>A one-way set whose only block is valid and holds the requested tag 7.\<close>

definition matching_heap :: heap where
  "matching_heap = (\<lambda>p. mk_blk True 7 False 64)"


text \<open>A one-way set whose only block is valid and holds another tag.\<close>

definition other_heap :: heap where
  "other_heap = (\<lambda>p. mk_blk True 5 False 64)"

text \<open>
  An eight-way set filled to the budget of 32 segments by eight valid blocks that hold
  other tags: ways 0 to 3 need 6 segments each, way 4 needs 5, ways 5 to 7 need 1 each.
\<close>

definition full_heap :: heap where
  "full_heap =
     (\<lambda>p. mk_blk True (10 + p) False (if p < 4 then 384 else if p = 4 then 320 else 64))"

section \<open>Replaceable entries\<close>

text \<open>
  \<open>ReplaceableEntry\<close>: the position \<open>_set\<close>, \<open>_way\<close>, a \<open>uint8_t\<close> compressed size, the
  compression status, the coherence state (one \<open>char\<close>) and the replacement data
  pointer.
\<close>

type_synonym entryptr = nat

record ReplaceableEntry =
  entry_set :: "32 word"
  entry_way :: "32 word"
  entry_cSize :: "8 word"
  cStatus :: bool
  coherenceState :: char
  replacementData :: "nat option"

text \<open>
  The constructor initialises \<open>cSize\<close>, \<open>cStatus\<close> and \<open>coherenceState\<close>; \<open>_set\<close> and
  \<open>_way\<close> are left as they are in memory (the arguments \<open>s\<close> and \<open>w\<close>), and the shared
  pointer starts empty.
\<close>

definition new_ReplaceableEntry :: "32 word \<Rightarrow> 32 word \<Rightarrow> ReplaceableEntry" where
  "new_ReplaceableEntry s w =
     \<lparr>entry_set = s, entry_way = w, entry_cSize = 0, cStatus = False,
      coherenceState = CHR ''I'', replacementData = None\<rparr>"

definition setPosition :: "ReplaceableEntry \<Rightarrow> 32 word \<Rightarrow> 32 word \<Rightarrow> ReplaceableEntry" where
  "setPosition e s w = e\<lparr>entry_set := s, entry_way := w\<rparr>"

definition getSet :: "ReplaceableEntry \<Rightarrow> 32 word" where
  "getSet e = entry_set e"

definition getWay :: "ReplaceableEntry \<Rightarrow> 32 word" where
  "getWay e = entry_way e"

definition getCompressedSize :: "ReplaceableEntry \<Rightarrow> 8 word" where
  "getCompressedSize e = entry_cSize e"

definition getCompressionStatus :: "ReplaceableEntry \<Rightarrow> bool" where
  "getCompressionStatus e = cStatus e"

definition getCoherenceState :: "ReplaceableEntry \<Rightarrow> char" where
  "getCoherenceState e = coherenceState e"

text \<open>
  The data model's invariant on an entry whose validity flag (kept by the derived
  block class) is \<open>v\<close>: an entry that is not valid is in coherence state Invalid.
\<close>

definition invalid_means_I :: "bool \<Rightarrow> ReplaceableEntry \<Rightarrow> bool" where
  "invalid_means_I v e = (\<not> v \<longrightarrow> getCoherenceState e = CHR ''I'')"

section \<open>The indexing policy\<close>

datatype sim_error =
    Fatal string
  | DivideByZero
  | AssertionFailed
  | OutOfRange string
  | RuntimeError string
  | OutOfBoundsAccess

text \<open>\<open>BaseIndexingPolicy::isPowerOf2\<close> and \<open>floorLog2\<close>, both on \<open>uint32_t\<close>.\<close>

definition isPowerOf2 :: "32 word \<Rightarrow> bool" where
  "isPowerOf2 x = (x \<noteq> 0 \<and> x AND (x - 1) = 0)"

text \<open>
  \<open>floorLog2\<close> truncates \<open>std::log2\<close> of the argument; for a nonzero 32-bit argument
  that is the integer logarithm. On 0 the conversion of minus infinity is undefined;
  the model gives 0 there.
\<close>

definition floorLog2 :: "32 word \<Rightarrow> nat" where
  "floorLog2 x = floorlog 2 (unat x) - 1"

text \<open>Integer division of C++: the quotient is truncated towards zero.\<close>

definition cdiv :: "int \<Rightarrow> int \<Rightarrow> int" where
  "cdiv a b = sgn a * sgn b * (\<bar>a\<bar> div \<bar>b\<bar>)"

definition crem :: "int \<Rightarrow> int \<Rightarrow> int" where
  "crem a b = a - cdiv a b * b"

text \<open>
  The members of \<open>BaseIndexingPolicy\<close>. The header that declares them is missing from
  the source files. \<open>assoc\<close> is an \<open>unsigned\<close>: the call
  \<open>std::div((long long)index, assoc)\<close> in \<open>setEntry\<close> picks the \<open>long long\<close> overload
  only for an unsigned second argument. \<open>numSets\<close> is the \<open>uint32_t\<close> that
  \<open>isPowerOf2\<close> and the loops take. A row of \<open>sets\<close> holds entry pointers, null
  (\<open>None\<close>) until assigned.
\<close>

record BaseIndexingPolicy =
  assoc :: "32 word"
  numSets :: "32 word"
  setShift :: nat
  setMask :: int
  sets :: "entryptr option list list"
  tagShift :: nat

text \<open>
  The parameters the constructor reads, as configured: \<open>p.size\<close> is a 64-bit unsigned,
  \<open>p.entry_size\<close> and \<open>p.assoc\<close> are \<open>int\<close>s.
\<close>

record IndexingParams =
  p_size :: "64 word"
  p_entry_size :: int
  p_assoc :: int

text \<open>The member initialiser \<open>assoc(p.assoc)\<close>: the \<open>int\<close> becomes an \<open>unsigned\<close>.\<close>

definition assoc_of :: "IndexingParams \<Rightarrow> 32 word" where
  "assoc_of p = word_of_int (p_assoc p)"

text \<open>
  The member initialiser \<open>numSets(p.size / (p.entry_size * assoc))\<close>. The product of an
  \<open>int\<close> and an \<open>unsigned\<close> is an \<open>unsigned\<close> and wraps at 32 bits; the division is
  done in 64 bits and its result narrowed to \<open>uint32_t\<close>. A zero divisor traps, so
  there is no number of sets then.
\<close>

definition numSets_of :: "IndexingParams \<Rightarrow> 32 word option" where
  "numSets_of p =
     (let divisor = (word_of_int (p_entry_size p) * assoc_of p :: 32 word)
      in if divisor = 0 then None
         else Some (word_of_nat (unat (p_size p) div unat divisor)))"

text \<open>
  The constructor. \<open>numSegments\<close>, the length every row of \<open>sets\<close> is resized to, is not
  declared in the source files and is a parameter. The test \<open>assoc <= 0\<close> reads the
  unsigned member.
\<close>

definition BaseIndexingPolicy_init :: "IndexingParams \<Rightarrow> nat \<Rightarrow> sim_error + BaseIndexingPolicy" where
  "BaseIndexingPolicy_init p numSegments =
     (case numSets_of p of
        None \<Rightarrow> Inl DivideByZero
      | Some n \<Rightarrow>
          if \<not> isPowerOf2 n then Inl (Fatal ''# of sets must be non-zero and a power of 2'')
          else if assoc_of p \<le> 0 then Inl (Fatal ''associativity must be greater than zero'')
          else Inr \<lparr>assoc = assoc_of p,
                    numSets = n,
                    setShift = floorLog2 (word_of_int (p_entry_size p)),
                    setMask = uint (n - 1),
                    sets = replicate (unat n) (replicate numSegments None),
                    tagShift = floorLog2 (word_of_int (p_entry_size p)) + floorLog2 n\<rparr>)"

text \<open>
  \<open>getEntryData\<close>. The two tests throw. \<open>segmentOffset * 8\<close> is computed in 32 bits
  and widened to \<open>size_t\<close>, the end of the range is computed in \<open>size_t\<close>. The final expression
  \<open>sets[set][dataStart, dataEnd]\<close> is a comma expression inside the subscript, so it
  reads \<open>sets[set][dataEnd]\<close>, without a bounds check: beyond the row the read is
  undefined (\<open>OutOfBoundsAccess\<close>).
\<close>

definition getEntryData ::
  "BaseIndexingPolicy \<Rightarrow> nat \<Rightarrow> nat \<Rightarrow> bool \<Rightarrow> nat \<Rightarrow> sim_error + entryptr option" where
  "getEntryData pol set_no segmentOffset c_status c_size =
     (if length (sets pol) \<le> set_no \<or> length (sets pol ! set_no) \<le> segmentOffset then
        Inl (OutOfRange ''Index out of bounds'')
      else
        (case sets pol ! set_no ! segmentOffset of
           None \<Rightarrow> Inl (RuntimeError ''Entry is null'')
         | Some entry \<Rightarrow>
             (let dataStart = to_uint32 (int segmentOffset * 8);
                  dataEnd = (if c_status then to_size_t (dataStart + to_size_t (int c_size * 8))
                             else to_size_t (dataStart + 8 * 8))
              in if nat dataEnd < length (sets pol ! set_no)
                 then Inr (sets pol ! set_no ! nat dataEnd)
                 else Inl OutOfBoundsAccess)))"

text \<open>
  The first definition of \<open>setEntry\<close> (division). \<open>std::div\<close> works on \<open>long long\<close>,
  to which the index and the unsigned \<open>assoc\<close> are converted; the quotient and the
  remainder are narrowed to \<open>uint32_t\<close>. The entries live in a heap
  of their own, so that \<open>setPosition\<close> is visible.
\<close>

type_synonym entry_heap = "entryptr \<Rightarrow> ReplaceableEntry"

definition to_long_long :: "int \<Rightarrow> int" where
  "to_long_long x = (x + 2 ^ 63) mod 2 ^ 64 - 2 ^ 63"

definition setEntry ::
  "BaseIndexingPolicy \<Rightarrow> entry_heap \<Rightarrow> entryptr \<Rightarrow> nat
     \<Rightarrow> sim_error + BaseIndexingPolicy \<times> entry_heap" where
  "setEntry pol eh entry index =
     (if assoc pol = 0 then Inl DivideByZero
      else
        (let set_no = (word_of_int (cdiv (to_long_long (int index)) (uint (assoc pol))) :: 32 word);
             way = (word_of_int (crem (to_long_long (int index)) (uint (assoc pol))) :: 32 word)
         in if \<not> set_no < numSets pol then Inl AssertionFailed
            else if length (sets pol) \<le> unat set_no
                    \<or> length (sets pol ! unat set_no) \<le> unat way then Inl OutOfBoundsAccess
            else Inr (pol\<lparr>sets := (sets pol)[unat set_no :=
                                       (sets pol ! unat set_no)[unat way := Some entry]]\<rparr>,
                      eh(entry := setPosition (eh entry) set_no way))))"

text \<open>
  The second definition of \<open>setEntry\<close> in the same file (bit masks). It writes
  \<open>sets[set].entries[way]\<close>, taken here as the same row of pointers, and does not call
  \<open>setPosition\<close>.
\<close>

definition setEntry_mask ::
  "BaseIndexingPolicy \<Rightarrow> entry_heap \<Rightarrow> entryptr \<Rightarrow> nat
     \<Rightarrow> sim_error + BaseIndexingPolicy \<times> entry_heap" where
  "setEntry_mask pol eh entry index =
     (let set_no = (word_of_int (int index AND setMask pol) :: 32 word);
          way = (word_of_int (drop_bit (setShift pol) (int index) AND uint (assoc pol - 1))
                  :: 32 word)
      in if length (sets pol) \<le> unat set_no
            \<or> length (sets pol ! unat set_no) \<le> unat way then Inl OutOfBoundsAccess
         else Inr (pol\<lparr>sets := (sets pol)[unat set_no :=
                                    (sets pol ! unat set_no)[unat way := Some entry]]\<rparr>,
                   eh))"

text \<open>The lookup \<open>sets[set][way]\<close> (the body of \<open>getEntry\<close>, with the range written out).\<close>

definition getEntry :: "BaseIndexingPolicy \<Rightarrow> nat \<Rightarrow> nat \<Rightarrow> sim_error + entryptr option" where
  "getEntry pol set_no way =
     (if set_no < length (sets pol) \<and> way < length (sets pol ! set_no)
      then Inr (sets pol ! set_no ! way) else Inl OutOfBoundsAccess)"

section \<open>The tag store's constructor\<close>

text \<open>
  The parameters \<open>BaseSetAssoc::BaseSetAssoc\<close> reads. The indexing policy is a pointer
  that may be null.
  Modelled from the spec: the base class \<open>BaseTags\<close> and \<open>isPowerOf2\<close> of base/intmath.hh
  are missing from the source files; \<open>blkSize\<close> is the configured block size as an
  \<open>unsigned\<close>, and the power-of-two test is the one of the indexing policy.
\<close>

record TagParams =
  t_size :: nat
  t_block_size :: nat
  t_assoc :: nat
  t_sequential_access :: bool
  t_indexing_policy :: "BaseIndexingPolicy option"

record BaseSetAssoc =
  allocAssoc :: nat
  numBlks :: nat
  sequentialAccess :: bool
  blkSize :: "32 word"
  indexingPolicy :: BaseIndexingPolicy

definition BaseSetAssoc_init :: "TagParams \<Rightarrow> sim_error + BaseSetAssoc" where
  "BaseSetAssoc_init p =
     (if t_block_size p = 0 then Inl DivideByZero
      else
        (case t_indexing_policy p of
           None \<Rightarrow> Inl (Fatal ''An indexing policy is required'')
         | Some ip \<Rightarrow>
             if (word_of_nat (t_block_size p) :: 32 word) < 4
                \<or> \<not> isPowerOf2 (word_of_nat (t_block_size p))
             then Inl (Fatal ''Block size must be at least 4 and a power of 2'')
             else Inr \<lparr>allocAssoc = t_assoc p,
                       numBlks = t_size p div t_block_size p,
                       sequentialAccess = t_sequential_access p,
                       blkSize = word_of_nat (t_block_size p),
                       indexingPolicy = ip\<rparr>))"

text \<open>The policy of a cache of 256 bytes with entries of 64 bytes and two ways.\<close>

definition two_by_two :: BaseIndexingPolicy where
  "two_by_two = \<lparr>assoc = 2, numSets = 2, setShift = 6, setMask = 1,
                 sets = [[None, None], [None, None]], tagShift = 7\<rparr>"

text \<open>
  The same cache configured with a negative associativity, and with associativity 0.
\<close>

definition negative_assoc_params :: IndexingParams where
  "negative_assoc_params = \<lparr>p_size = 256, p_entry_size = 64, p_assoc = - 67108863\<rparr>"

definition zero_assoc_params :: IndexingParams where
  "zero_assoc_params = \<lparr>p_size = 256, p_entry_size = 64, p_assoc = 0\<rparr>"

text \<open>Entries as the constructor leaves them, with the position fields holding 0.\<close>

definition unplaced :: entry_heap where
  "unplaced = (\<lambda>p. new_ReplaceableEntry 0 0)"

text \<open>One set of nine slots, slot \<open>i\<close> holding the entry \<open>100 + i\<close>.\<close>

definition nine_slots :: BaseIndexingPolicy where
  "nine_slots = \<lparr>assoc = 9, numSets = 1, setShift = 6, setMask = 0,
                 sets = [map (\<lambda>i. Some (100 + i)) [0..<9]], tagShift = 6\<rparr>"

section \<open>Arithmetic of the conversions\<close>


lemma to_int32_to_size_t: "to_int32 (to_size_t x) = to_int32 x"
proof -
  have d: "(2 ^ 32 :: int) dvd 2 ^ 64"
    by (rule le_imp_power_dvd) simp
  have "(x mod 2 ^ 64 + 2 ^ 31) mod 2 ^ 32 = (x mod 2 ^ 64 mod 2 ^ 32 + 2 ^ 31) mod (2 ^ 32 :: int)"
    by (rule mod_add_left_eq [symmetric])
  also have "\<dots> = (x mod 2 ^ 32 + 2 ^ 31) mod (2 ^ 32 :: int)"
    by (simp only: mod_mod_cancel [OF d])
  also have "\<dots> = (x + 2 ^ 31) mod (2 ^ 32 :: int)"
    by (rule mod_add_left_eq)
  finally show ?thesis by (simp only: to_int32_def to_size_t_def)
qed

lemma to_int32_diff_uint32: "to_int32 (a - to_uint32 b) = to_int32 (a - b)"
proof -
  have "(a - b mod 2 ^ 32 + 2 ^ 31) mod 2 ^ 32 = ((a + 2 ^ 31) - b mod 2 ^ 32) mod (2 ^ 32 :: int)"
    by (simp only: add_diff_eq diff_add_eq)
  also have "\<dots> = ((a + 2 ^ 31) - b) mod (2 ^ 32 :: int)"
    by (rule mod_diff_right_eq)
  also have "\<dots> = (a - b + 2 ^ 31) mod (2 ^ 32 :: int)"
    by (simp only: add_diff_eq diff_add_eq)
  finally show ?thesis by (simp only: to_int32_def to_uint32_def)
qed

lemma cancel_shift: "(m::int) - k - b + k = m - b"
  by simp

lemma to_int32_diff_int32: "to_int32 (to_int32 a - b) = to_int32 (a - b)"
proof -
  have "((a + 2 ^ 31) mod 2 ^ 32 - 2 ^ 31 - b + 2 ^ 31) mod 2 ^ 32
          = ((a + 2 ^ 31) mod 2 ^ 32 - b) mod (2 ^ 32 :: int)"
    by (rule arg_cong [where f = "\<lambda>v. v mod 2 ^ 32"]) (rule cancel_shift)
  also have "\<dots> = ((a + 2 ^ 31) - b) mod (2 ^ 32 :: int)"
    by (rule mod_diff_left_eq)
  also have "\<dots> = (a - b + 2 ^ 31) mod (2 ^ 32 :: int)"
    by (simp only: add_diff_eq diff_add_eq)
  finally show ?thesis by (simp only: to_int32_def)
qed

lemma to_uint32_add_left: "to_uint32 (to_uint32 a + b) = to_uint32 (a + b)"
  by (simp only: to_uint32_def mod_add_left_eq)

lemma to_int32_small: "- (2 ^ 31) \<le> x \<Longrightarrow> x < 2 ^ 31 \<Longrightarrow> to_int32 x = x"
  by (simp add: to_int32_def)

lemma to_uint32_small: "0 \<le> x \<Longrightarrow> x < 2 ^ 32 \<Longrightarrow> to_uint32 x = x"
  by (simp add: to_uint32_def)


subsection \<open>The scan\<close>

lemma scan_blocks_append:
  "scan_blocks h tg sec upd (bs @ [b]) st = scan_step h tg sec upd (scan_blocks h tg sec upd bs st) b"
  by (induction bs arbitrary: st) simp_all

lemma valid_blocks_scan:
  "valid_blocks (scan_blocks h tg sec upd bs st) =
     valid_blocks st @ filter (\<lambda>b. isValid (h b) \<and> \<not> (matchTag (h b) tg sec \<and> upd)) bs"
  by (induction bs arbitrary: st) (simp_all add: scan_step_def)

lemma evicts_scan:
  "evicts (scan_blocks h tg sec upd bs st) = evicts st @ filter (\<lambda>b. \<not> isValid (h b)) bs"
  by (induction bs arbitrary: st) (simp_all add: scan_step_def)

lemma segments_scan:
  "to_uint32 (segments (scan_blocks h tg sec upd bs st)) =
     to_uint32 (segments st + sum_list (map (\<lambda>b. segs (cSize (h b)))
        (filter (\<lambda>b. isValid (h b) \<and> \<not> (matchTag (h b) tg sec \<and> upd)) bs)))"
proof (induction bs arbitrary: st)
  case Nil
  show ?case by simp
next
  case (Cons b bs)
  show ?case
    by (simp add: Cons.IH scan_step_def to_uint32_add_left add.assoc)
qed

lemma segments_scan_range:
  "segments st = to_uint32 (segments st) \<Longrightarrow>
   segments (scan_blocks h tg sec upd bs st) = to_uint32 (segments (scan_blocks h tg sec upd bs st))"
  by (induction bs arbitrary: st) (simp_all add: scan_step_def to_uint32_def)

lemma update_blk_scan:
  "update_blk (scan_blocks h tg sec upd bs st) =
     (case filter (\<lambda>b. isValid (h b) \<and> matchTag (h b) tg sec \<and> upd) bs of
        [] \<Rightarrow> update_blk st | ms \<Rightarrow> Some (last ms))"
proof (induction bs arbitrary: st)
  case Nil
  show ?case by simp
next
  case (Cons b bs)
  show ?case
    by (simp add: Cons.IH scan_step_def split: list.splits)
qed

lemma replacement_scan:
  "replacement (scan_blocks h tg sec upd bs st) =
     (case filter (\<lambda>b. \<not> (isValid (h b) \<and> \<not> (matchTag (h b) tg sec \<and> upd))) bs of
        [] \<Rightarrow> replacement st | ms \<Rightarrow> Some (last ms))"
proof (induction bs arbitrary: st)
  case Nil
  show ?case by simp
next
  case (Cons b bs)
  show ?case
    by (auto simp: Cons.IH scan_step_def split: list.splits)
qed


subsection \<open>The shortfall\<close>

lemma initial_extra_eq:
  "initial_extra req_size sg = to_int32 (needed_segments req_size - (max_set_segments - sg))"
  by (simp only: initial_extra_def to_int32_to_size_t to_int32_diff_uint32)

lemma needed_segments_exact:
  assumes "req_size + 63 < 2 ^ 64"
  shows "needed_segments req_size = int ((req_size + 63) div 64)"
proof -
  have "int (req_size + 63) < int (2 ^ 64)"
    using assms by (simp only: of_nat_less_iff)
  then have "int req_size + 63 < 2 ^ 64"
    by simp
  then have "to_size_t (int req_size + 63) = int req_size + 63"
    by (simp add: to_size_t_def)
  then show ?thesis
    by (simp add: needed_segments_def zdiv_int)
qed

lemma large_blocks_Nil: "large_blocks h [] extra r = []"
  by (simp add: large_blocks_def)

lemma second_pick_no_candidates:
  "valid_blocks st = [] \<Longrightarrow>
   second_pick gv h st ps =
     Inr (ps\<lparr>extra_segments := to_int32 (extra_segments ps - segs (cSize (h (chosen ps))))\<rparr>)"
  by (simp add: second_pick_def large_blocks_Nil)

text \<open>
  C9: when every entry of a nonempty set is invalid and the request needs at most 32
  segments, the policy is never consulted, the evicted list is the whole set in way
  order, and the target is the last (highest) way.
\<close>

theorem all_invalid_set:
  assumes nonempty: "blocks \<noteq> []"
    and invalid: "\<forall>b \<in> set blocks. \<not> isValid (h b)"
    and fits: "(req_size + 63) div 64 \<le> 32"
  shows "findCompressedDataReplacement getVictim h blocks tg is_secure req_size []
           update_expansion
         = Inr \<lparr>target = last blocks, evicted = blocks, consulted = []\<rparr>"
proof -
  define st where "st = scan_blocks h tg is_secure update_expansion blocks (scan_init [])"
  have all_free: "filter (\<lambda>b. \<not> isValid (h b)) blocks = blocks"
    using invalid by simp
  have none_valid:
    "filter (\<lambda>b. isValid (h b) \<and> \<not> (matchTag (h b) tg is_secure \<and> update_expansion)) blocks = []"
    using invalid by simp
  have others:
    "filter (\<lambda>b. \<not> (isValid (h b) \<and> \<not> (matchTag (h b) tg is_secure \<and> update_expansion))) blocks
       = blocks"
    using invalid by simp
  have no_match:
    "filter (\<lambda>b. isValid (h b) \<and> matchTag (h b) tg is_secure \<and> update_expansion) blocks = []"
    using invalid by simp
  have vb: "valid_blocks st = []"
    unfolding st_def valid_blocks_scan none_valid by (simp add: scan_init_def)
  have ev: "evicts st = blocks"
    unfolding st_def evicts_scan all_free by (simp add: scan_init_def)
  have ub: "update_blk st = None"
    unfolding st_def update_blk_scan no_match by (simp add: scan_init_def)
  have rp: "replacement st = Some (last blocks)"
    unfolding st_def replacement_scan others
    using nonempty by (cases blocks) simp_all
  have "segments st = to_uint32 (segments st)"
    unfolding st_def by (rule segments_scan_range) (simp add: scan_init_def to_uint32_def)
  also have "\<dots> = to_uint32 0"
    unfolding st_def segments_scan none_valid by (simp add: scan_init_def)
  finally have sg: "segments st = 0"
    by (simp add: to_uint32_def)
  have "req_size + 63 < 33 * 64"
    using fits by simp
  then have "req_size + 63 < 2 ^ 64"
    by simp
  then have need: "needed_segments req_size = int ((req_size + 63) div 64)"
    by (rule needed_segments_exact)
  have "to_int32 (int ((req_size + 63) div 64) - 32) = int ((req_size + 63) div 64) - 32"
    using fits by (intro to_int32_small) simp_all
  then have ex: "initial_extra req_size (segments st) \<le> 0"
    using fits by (simp add: initial_extra_eq need sg max_set_segments_def)
  have fp: "first_pick getVictim h st (initial_extra req_size (segments st)) =
      Inr \<lparr>chosen = last blocks,
           extra_segments = to_int32 (initial_extra req_size (segments st)
                                      - segs (cSize (h (last blocks)))),
           evicts_now = blocks, calls = []\<rparr>"
    using ex by (simp add: first_pick_def rp ev)
  show ?thesis
    unfolding findCompressedDataReplacement_def st_def [symmetric] Let_def
    by (simp add: fp second_pick_no_candidates [OF vb] ub)
qed


theorem all_invalid_set_witness:
  "[0, 1, 2, 3] \<noteq> ([] :: blkptr list)
   \<and> list_all (\<lambda>b. \<not> isValid (all_free_heap b)) [0, 1, 2, 3]
   \<and> (192 + 63) div 64 \<le> (32 :: nat)
   \<and> findCompressedDataReplacement highest_index all_free_heap [0, 1, 2, 3] 9 False 192 [] False
       = Inr \<lparr>target = 3, evicted = [0, 1, 2, 3], consulted = []\<rparr>"
proof -
  have inv: "\<forall>b \<in> set [0, 1, 2, 3]. \<not> isValid (all_free_heap b)"
    by (simp add: all_free_heap_def isValid_def mk_blk_def)
  have fits: "(192 + 63) div 64 \<le> (32 :: nat)"
    by simp
  have ne: "[0, 1, 2, 3] \<noteq> ([] :: blkptr list)"
    by simp
  show ?thesis
    using all_invalid_set [OF ne inv fits, of highest_index 9 False False] inv
    by simp
qed


subsection \<open>The two picks\<close>

lemma find_Inr:
  assumes "findCompressedDataReplacement gv h blocks tg sec req ev0 upd = Inr d"
  obtains ps ps' where
    "first_pick gv h (scan_blocks h tg sec upd blocks (scan_init ev0))
       (initial_extra req (segments (scan_blocks h tg sec upd blocks (scan_init ev0)))) = Inr ps"
    "second_pick gv h (scan_blocks h tg sec upd blocks (scan_init ev0)) ps = Inr ps'"
    "d = \<lparr>target = (case update_blk (scan_blocks h tg sec upd blocks (scan_init ev0)) of
                       Some u \<Rightarrow> u | None \<Rightarrow> chosen ps'),
          evicted = evicts_now ps', consulted = calls ps'\<rparr>"
  using assms
  by (auto simp: findCompressedDataReplacement_def Let_def split: sum.splits)

lemma first_pick_consult:
  assumes "first_pick gv h st e = Inr ps" "0 < e \<or> replacement st = None"
  shows "gv (valid_blocks st) = Some (chosen ps) \<and> calls ps = [valid_blocks st]
         \<and> evicts_now ps = evicts st @ [chosen ps]
         \<and> extra_segments ps = to_int32 (e - segs (cSize (h (chosen ps))))"
  using assms by (auto simp: first_pick_def split: option.splits)

lemma first_pick_keep:
  assumes "first_pick gv h st e = Inr ps" "\<not> (0 < e \<or> replacement st = None)"
  shows "replacement st = Some (chosen ps) \<and> calls ps = [] \<and> evicts_now ps = evicts st
         \<and> extra_segments ps = to_int32 (e - segs (cSize (h (chosen ps))))"
  using assms by (auto simp: first_pick_def split: option.splits)

lemma second_pick_consult:
  assumes "second_pick gv h st ps = Inr ps'" "0 < extra_segments ps"
    "large_blocks h (valid_blocks st) (extra_segments ps) (chosen ps) \<noteq> []"
  shows "gv (large_blocks h (valid_blocks st) (extra_segments ps) (chosen ps)) = Some (chosen ps')
         \<and> calls ps' = calls ps @ [large_blocks h (valid_blocks st) (extra_segments ps) (chosen ps)]
         \<and> evicts_now ps' = evicts_now ps @ [chosen ps']"
  using assms by (auto simp: second_pick_def Let_def split: option.splits)

lemma second_pick_keep:
  assumes "second_pick gv h st ps = Inr ps'"
    "\<not> (0 < extra_segments ps
        \<and> large_blocks h (valid_blocks st) (extra_segments ps) (chosen ps) \<noteq> [])"
  shows "chosen ps' = chosen ps \<and> calls ps' = calls ps \<and> evicts_now ps' = evicts_now ps"
  using assms by (auto simp: second_pick_def Let_def split: if_splits)

lemma set_large_blocks: "set (large_blocks h vbs e r) \<subseteq> set vbs"
  by (auto simp: large_blocks_def)

lemma consulted_subset:
  assumes "findCompressedDataReplacement gv h blocks tg sec req ev0 upd = Inr d"
    and "cs \<in> set (consulted d)"
  shows "set cs \<subseteq> set (valid_blocks (scan_blocks h tg sec upd blocks (scan_init ev0)))"
proof -
  let ?st = "scan_blocks h tg sec upd blocks (scan_init ev0)"
  from assms(1) obtain ps ps' where
    fp: "first_pick gv h ?st (initial_extra req (segments ?st)) = Inr ps"
    and sp: "second_pick gv h ?st ps = Inr ps'"
    and d: "d = \<lparr>target = (case update_blk ?st of Some u \<Rightarrow> u | None \<Rightarrow> chosen ps'),
                 evicted = evicts_now ps', consulted = calls ps'\<rparr>"
    by (rule find_Inr)
  have one: "\<forall>c \<in> set (calls ps). c = valid_blocks ?st"
    using first_pick_consult [OF fp] first_pick_keep [OF fp]
    by (cases "0 < initial_extra req (segments ?st) \<or> replacement ?st = None") auto
  have two: "\<forall>c \<in> set (calls ps'). c = valid_blocks ?st
               \<or> c = large_blocks h (valid_blocks ?st) (extra_segments ps) (chosen ps)"
    using second_pick_consult [OF sp] second_pick_keep [OF sp] one
    by (cases "0 < extra_segments ps
          \<and> large_blocks h (valid_blocks ?st) (extra_segments ps) (chosen ps) \<noteq> []") auto
  from assms(2) d have "cs \<in> set (calls ps')" by simp
  with two show ?thesis
    using set_large_blocks [of h "valid_blocks ?st" "extra_segments ps" "chosen ps"] by auto
qed

text \<open>
  C2 as stated fails when \<open>update_expansion\<close> is false: the valid entry that matches the
  request is put on \<open>valid_blocks\<close>, adds its segment to \<open>segments\<close>, and is offered to
  the policy.
\<close>

theorem matching_entry_resident_counterexample:
  "matchTag (matching_heap 0) 7 False
   \<and> valid_blocks (scan_blocks matching_heap 7 False False [0] (scan_init [])) = [0]
   \<and> segments (scan_blocks matching_heap 7 False False [0] (scan_init [])) = 1
   \<and> findCompressedDataReplacement highest_index matching_heap [0] 7 False 64 [] False
       = Inr \<lparr>target = 0, evicted = [0], consulted = [[0]]\<rparr>"
  by (simp add: matching_heap_def mk_blk_def matchTag_def isValid_def scan_step_def scan_init_def
      segs_def to_uint32_def findCompressedDataReplacement_def first_pick_def second_pick_def
      initial_extra_def needed_segments_def to_size_t_def to_int32_def max_set_segments_def
      highest_index_def large_blocks_def)

text \<open>
  C2, amended: the matching entry is set aside only when \<open>update_expansion\<close> is true.
  The resident list is the valid entries that are not (matching and to be updated), in
  way order; the occupied count is the sum of their segments as an \<open>unsigned\<close>; every
  invalid entry is appended to the evicted list; and every list handed to the policy is
  drawn from the resident list.
\<close>

theorem scan_partition:
  assumes st_def: "st = scan_blocks h tg is_secure update_expansion blocks (scan_init evicts0)"
  shows "valid_blocks st
           = filter (\<lambda>b. isValid (h b) \<and> \<not> (matchTag (h b) tg is_secure \<and> update_expansion)) blocks
         \<and> segments st = to_uint32 (sum_list (map (\<lambda>b. segs (cSize (h b))) (valid_blocks st)))
         \<and> evicts st = evicts0 @ filter (\<lambda>b. \<not> isValid (h b)) blocks
         \<and> (\<forall>d. findCompressedDataReplacement getVictim h blocks tg is_secure req_size evicts0
                   update_expansion = Inr d
                \<longrightarrow> (\<forall>cs \<in> set (consulted d). set cs \<subseteq> set (valid_blocks st)))"
proof -
  have vb: "valid_blocks st
           = filter (\<lambda>b. isValid (h b) \<and> \<not> (matchTag (h b) tg is_secure \<and> update_expansion)) blocks"
    unfolding st_def valid_blocks_scan by (simp add: scan_init_def)
  have "segments st = to_uint32 (segments st)"
    unfolding st_def by (rule segments_scan_range) (simp add: scan_init_def to_uint32_def)
  also have "\<dots> = to_uint32 (sum_list (map (\<lambda>b. segs (cSize (h b))) (valid_blocks st)))"
    unfolding vb unfolding st_def segments_scan by (simp add: scan_init_def)
  finally have sg: "segments st = to_uint32 (sum_list (map (\<lambda>b. segs (cSize (h b))) (valid_blocks st)))" .
  have ev: "evicts st = evicts0 @ filter (\<lambda>b. \<not> isValid (h b)) blocks"
    unfolding st_def evicts_scan by (simp add: scan_init_def)
  have cs: "\<forall>d. findCompressedDataReplacement getVictim h blocks tg is_secure req_size evicts0
                   update_expansion = Inr d
                \<longrightarrow> (\<forall>cs \<in> set (consulted d). set cs \<subseteq> set (valid_blocks st))"
    unfolding st_def using consulted_subset by blast
  from vb sg ev cs show ?thesis by blast
qed


theorem scan_partition_witness:
  "valid_blocks (scan_blocks (forced_heap (mk_blk True 9 False 64)) 9 False True [0, 1, 2, 3]
      (scan_init [])) = [0, 1, 2]
   \<and> segments (scan_blocks (forced_heap (mk_blk True 9 False 64)) 9 False True [0, 1, 2, 3]
      (scan_init [])) = 35
   \<and> evicts (scan_blocks (forced_heap (mk_blk True 9 False 64)) 9 False True [0, 1, 2, 3]
      (scan_init [])) = []"
  using scan_partition [OF refl, of "forced_heap (mk_blk True 9 False 64)" 9 False True
      "[0, 1, 2, 3]" "[]" highest_index 192]
  by (simp add: forced_heap_def mk_blk_def isValid_def matchTag_def segs_def to_uint32_def)

subsection \<open>Which block is returned\<close>

lemma scan_update_blk_props:
  assumes "update_blk (scan_blocks h tg sec upd blocks (scan_init ev0)) = Some u"
  shows "u \<in> set blocks \<and> isValid (h u) \<and> matchTag (h u) tg sec \<and> upd"
proof -
  let ?ms = "filter (\<lambda>b. isValid (h b) \<and> matchTag (h b) tg sec \<and> upd) blocks"
  from assms have ne: "?ms \<noteq> []" and u: "u = last ?ms"
    by (auto simp: update_blk_scan scan_init_def split: list.splits)
  from ne have "last ?ms \<in> set ?ms" by (rule last_in_set)
  with u show ?thesis by auto
qed

lemma scan_free_replacement:
  assumes "update_blk st = None \<longrightarrow> (\<forall>r. replacement st = Some r \<longrightarrow> r \<in> set (evicts st))"
  shows "update_blk (scan_blocks h tg sec upd bs st) = None \<longrightarrow>
         (\<forall>r. replacement (scan_blocks h tg sec upd bs st) = Some r
              \<longrightarrow> r \<in> set (evicts (scan_blocks h tg sec upd bs st)))"
  using assms
proof (induction bs arbitrary: st)
  case Nil
  then show ?case by simp
next
  case (Cons b bs)
  show ?case
    unfolding scan_blocks.simps
    by (rule Cons.IH) (use Cons.prems in \<open>auto simp: scan_step_def\<close>)
qed

lemma scan_replacement_evicted:
  assumes "update_blk (scan_blocks h tg sec upd blocks (scan_init ev0)) = None"
    and "replacement (scan_blocks h tg sec upd blocks (scan_init ev0)) = Some r"
  shows "r \<in> set (evicts (scan_blocks h tg sec upd blocks (scan_init ev0)))"
  using scan_free_replacement [of "scan_init ev0" h tg sec upd blocks] assms
  by (simp add: scan_init_def)

lemma fold_max_member: "fold max xs c \<in> set (c # xs)" for xs :: "blkptr list"
  by (induction xs arbitrary: c) (auto simp: max_def)

lemma highest_index_member: "highest_index cs = Some v \<Longrightarrow> v \<in> set cs"
  using fold_max_member by (cases cs) (auto simp: highest_index_def)

text \<open>
  C4 as stated fails: in a one-way set whose block is valid and holds another tag, the
  policy's victim is pushed on the evicted list and returned, so the target is a valid
  (not a free) entry and is on the evicted list.
\<close>

theorem valid_target_evicted_counterexample:
  "isValid (other_heap 0)
   \<and> findCompressedDataReplacement highest_index other_heap [0] 9 False 64 [] False
       = Inr \<lparr>target = 0, evicted = [0], consulted = [[0]]\<rparr>"
  by (simp add: other_heap_def mk_blk_def matchTag_def isValid_def scan_step_def scan_init_def
      segs_def to_uint32_def findCompressedDataReplacement_def first_pick_def second_pick_def
      initial_extra_def needed_segments_def to_size_t_def to_int32_def max_set_segments_def
      highest_index_def large_blocks_def)

text \<open>
  C4, amended: when no block is being updated, the returned block is always on the
  evicted list (it is the last free entry or the last victim). The returned block stays
  off the evicted list on the update path: it is then the matched block, provided the
  policy returns one of the candidates it is offered and the caller's vector did not hold
  the block already.
\<close>

theorem target_and_evicted:
  assumes call: "findCompressedDataReplacement getVictim h blocks tg is_secure req_size evicts0
                   update_expansion = Inr d"
    and st: "st = scan_blocks h tg is_secure update_expansion blocks (scan_init evicts0)"
  shows "(update_blk st = None \<longrightarrow> target d \<in> set (evicted d))
         \<and> (\<forall>u. update_blk st = Some u
                  \<and> (\<forall>cs v. getVictim cs = Some v \<longrightarrow> v \<in> set cs) \<and> u \<notin> set evicts0
                \<longrightarrow> target d = u \<and> target d \<notin> set (evicted d))"
proof -
  from call obtain ps ps' where
    fp: "first_pick getVictim h st (initial_extra req_size (segments st)) = Inr ps"
    and sp: "second_pick getVictim h st ps = Inr ps'"
    and d: "d = \<lparr>target = (case update_blk st of Some u \<Rightarrow> u | None \<Rightarrow> chosen ps'),
                 evicted = evicts_now ps', consulted = calls ps'\<rparr>"
    unfolding st by (rule find_Inr)
  let ?c1 = "0 < initial_extra req_size (segments st) \<or> replacement st = None"
  let ?lb = "large_blocks h (valid_blocks st) (extra_segments ps) (chosen ps)"
  let ?c2 = "0 < extra_segments ps \<and> ?lb \<noteq> []"
  have first_in: "update_blk st = None \<Longrightarrow> chosen ps \<in> set (evicts_now ps)"
  proof (cases ?c1)
    case True
    from first_pick_consult [OF fp True] show ?thesis by simp
  next
    case False
    assume "update_blk st = None"
    with first_pick_keep [OF fp False] show ?thesis
      using scan_replacement_evicted [of h tg is_secure update_expansion blocks evicts0 "chosen ps"]
      by (simp add: st)
  qed
  have part1: "update_blk st = None \<longrightarrow> target d \<in> set (evicted d)"
  proof (cases ?c2)
    case True
    from second_pick_consult [OF sp] True show ?thesis by (simp add: d)
  next
    case False
    from second_pick_keep [OF sp False] first_in show ?thesis by (simp add: d)
  qed
  have part2: "target d = u \<and> target d \<notin> set (evicted d)"
    if ub: "update_blk st = Some u"
      and pol: "\<forall>cs v. getVictim cs = Some v \<longrightarrow> v \<in> set cs"
      and fresh: "u \<notin> set evicts0" for u
  proof -
    from ub have props: "isValid (h u) \<and> matchTag (h u) tg is_secure \<and> update_expansion"
      using scan_update_blk_props [of h tg is_secure update_expansion blocks evicts0 u]
      by (simp add: st)
    have vb: "valid_blocks st = filter (\<lambda>b. isValid (h b)
                \<and> \<not> (matchTag (h b) tg is_secure \<and> update_expansion)) blocks"
      unfolding st valid_blocks_scan by (simp add: scan_init_def)
    have ev: "evicts st = evicts0 @ filter (\<lambda>b. \<not> isValid (h b)) blocks"
      unfolding st evicts_scan by (simp add: scan_init_def)
    from props have not_res: "u \<notin> set (valid_blocks st)"
      unfolding vb by simp
    from props fresh have not_ev: "u \<notin> set (evicts st)"
      unfolding ev by simp
    have e1: "u \<notin> set (evicts_now ps)"
    proof (cases ?c1)
      case True
      from first_pick_consult [OF fp True] pol have "chosen ps \<in> set (valid_blocks st)"
        by blast
      with not_res have "chosen ps \<noteq> u" by blast
      with first_pick_consult [OF fp True] not_ev show ?thesis by simp
    next
      case False
      with first_pick_keep [OF fp False] not_ev show ?thesis by simp
    qed
    have e2: "u \<notin> set (evicts_now ps')"
    proof (cases ?c2)
      case True
      then have c: "0 < extra_segments ps" and ne: "?lb \<noteq> []" by simp_all
      from second_pick_consult [OF sp c ne] pol have "chosen ps' \<in> set ?lb"
        by blast
      with set_large_blocks [of h "valid_blocks st" "extra_segments ps" "chosen ps"] not_res
      have "chosen ps' \<noteq> u" by blast
      with second_pick_consult [OF sp c ne] e1 show ?thesis by simp
    next
      case False
      with second_pick_keep [OF sp False] e1 show ?thesis by simp
    qed
    from e2 ub show ?thesis by (simp add: d)
  qed
  from part1 part2 show ?thesis by blast
qed

theorem target_and_evicted_witness:
  "target \<lparr>target = 3, evicted = [2, 1], consulted = [[0, 1, 2], [0, 1]]\<rparr> = (3 :: blkptr)
   \<and> (3 :: blkptr) \<notin> set (evicted \<lparr>target = 3, evicted = [2, 1], consulted = [[0, 1, 2], [0, 1]]\<rparr>)
   \<and> update_blk (scan_blocks (forced_heap (mk_blk True 9 False 64)) 9 False True [0, 1, 2, 3]
        (scan_init [])) = Some 3"
proof -
  let ?h = "forced_heap (mk_blk True 9 False 64)"
  have call: "findCompressedDataReplacement highest_index ?h [0, 1, 2, 3] 9 False 192 [] True
      = Inr \<lparr>target = 3, evicted = [2, 1], consulted = [[0, 1, 2], [0, 1]]\<rparr>"
    by (simp add: forced_heap_def mk_blk_def matchTag_def isValid_def scan_step_def scan_init_def
      segs_def to_uint32_def findCompressedDataReplacement_def first_pick_def second_pick_def
      initial_extra_def needed_segments_def to_size_t_def to_int32_def max_set_segments_def
      highest_index_def large_blocks_def)
  have ub: "update_blk (scan_blocks ?h 9 False True [0, 1, 2, 3] (scan_init [])) = Some 3"
    by (simp add: forced_heap_def mk_blk_def matchTag_def isValid_def scan_step_def scan_init_def)
  have pol: "\<forall>cs v. highest_index cs = Some v \<longrightarrow> v \<in> set cs"
    using highest_index_member by blast
  from target_and_evicted [OF call refl] ub pol show ?thesis
    by simp
qed





lemma to_int32_add_uint32: "to_int32 (a + to_uint32 b) = to_int32 (a + b)"
proof -
  have "(a + b mod 2 ^ 32 + 2 ^ 31) mod 2 ^ 32 = ((a + 2 ^ 31) + b mod 2 ^ 32) mod (2 ^ 32 :: int)"
    by (simp only: add.assoc add.commute add.left_commute)
  also have "\<dots> = ((a + 2 ^ 31) + b) mod (2 ^ 32 :: int)"
    by (rule mod_add_right_eq)
  also have "\<dots> = (a + b + 2 ^ 31) mod (2 ^ 32 :: int)"
    by (simp only: add.assoc add.commute add.left_commute)
  finally show ?thesis by (simp only: to_int32_def to_uint32_def)
qed

text \<open>
  C1 as stated fails on a four-way set without free ways. Way 3 is valid as well: when it
  is not being updated it is resident and the stub picks it first, so the evicted list is
  way 3 then way 1; when it is the matched block being updated, the evicted list is way 2
  then way 1 but the block returned is way 3.
\<close>

theorem forced_multi_eviction_counterexample:
  "findCompressedDataReplacement highest_index (forced_heap (mk_blk True 9 False 64)) [0, 1, 2, 3]
       9 False 192 [] False
     = Inr \<lparr>target = 1, evicted = [3, 1], consulted = [[0, 1, 2, 3], [0, 1]]\<rparr>
   \<and> findCompressedDataReplacement highest_index (forced_heap (mk_blk True 9 False 64)) [0, 1, 2, 3]
       9 False 192 [] True
     = Inr \<lparr>target = 3, evicted = [2, 1], consulted = [[0, 1, 2], [0, 1]]\<rparr>"
  by (simp add: forced_heap_def mk_blk_def matchTag_def isValid_def scan_step_def scan_init_def
      segs_def to_uint32_def findCompressedDataReplacement_def first_pick_def second_pick_def
      initial_extra_def needed_segments_def to_size_t_def to_int32_def max_set_segments_def
      highest_index_def large_blocks_def)

lemma forced_update_path:
  assumes "valid b3" "matchTag b3 9 False" "upd"
  shows "findCompressedDataReplacement highest_index (forced_heap b3) [0, 1, 2, 3] 9 False 192 [] upd
     = Inr \<lparr>target = 3, evicted = [2, 1], consulted = [[0, 1, 2], [0, 1]]\<rparr>"
  using assms
  by (simp add: forced_heap_def mk_blk_def matchTag_def isValid_def scan_step_def scan_init_def
      segs_def to_uint32_def findCompressedDataReplacement_def first_pick_def second_pick_def
      initial_extra_def needed_segments_def to_size_t_def to_int32_def max_set_segments_def
      highest_index_def large_blocks_def)

lemma forced_resident_path:
  assumes v: "valid b3" and nm: "\<not> (matchTag b3 9 False \<and> upd)"
  shows "findCompressedDataReplacement highest_index (forced_heap b3) [0, 1, 2, 3] 9 False 192 [] upd
     = Inr \<lparr>target = 1, evicted = [3, 1], consulted = [[0, 1, 2, 3], [0, 1]]\<rparr>"
proof -
  let ?h = "forced_heap b3"
  let ?s3 = "segs (cSize b3)"
  define st where "st = scan_blocks ?h 9 False upd [0, 1, 2, 3] (scan_init [])"
  have h3: "?h 3 = b3"
    by (simp add: forced_heap_def)
  have sizes: "segs (cSize (?h 0)) = 20" "segs (cSize (?h (Suc 0))) = 10"
    "segs (cSize (?h 2)) = 5"
    by (simp_all add: forced_heap_def mk_blk_def segs_def)
  have others: "isValid (?h 0)" "isValid (?h 1)" "isValid (?h 2)"
    "\<not> matchTag (?h 0) 9 False" "\<not> matchTag (?h 1) 9 False" "\<not> matchTag (?h 2) 9 False"
    by (simp_all add: forced_heap_def mk_blk_def isValid_def matchTag_def)
  have scan: "st = \<lparr>replacement = None, update_blk = None, valid_blocks = [0, 1, 2, 3],
                    segments = to_uint32 (35 + ?s3), evicts = []\<rparr>"
    using v nm others unfolding st_def
    by (simp add: scan_step_def scan_init_def isValid_def h3 sizes to_uint32_add_left)
  have need: "needed_segments 192 = 3"
    by (simp add: needed_segments_def to_size_t_def)
  have "initial_extra 192 (to_uint32 (35 + ?s3)) = to_int32 (3 - 32 + to_uint32 (35 + ?s3))"
    by (simp add: initial_extra_eq need max_set_segments_def)
  also have "\<dots> = to_int32 (3 - 32 + (35 + ?s3))"
    by (rule to_int32_add_uint32)
  finally have e0: "initial_extra 192 (to_uint32 (35 + ?s3)) = to_int32 (6 + ?s3)"
    by simp
  have "to_int32 (to_int32 (6 + ?s3) - ?s3) = to_int32 (6 + ?s3 - ?s3)"
    by (rule to_int32_diff_int32)
  also have "\<dots> = 6"
    by (simp add: to_int32_def)
  finally have e1: "to_int32 (to_int32 (6 + ?s3) - ?s3) = 6" .
  have hi: "highest_index [0, Suc 0, 2, 3] = Some 3" "highest_index [0, Suc 0] = Some (Suc 0)"
    by (simp_all add: highest_index_def)
  have fp: "first_pick highest_index ?h st (initial_extra 192 (segments st))
      = Inr \<lparr>chosen = 3, extra_segments = 6, evicts_now = [3], calls = [[0, 1, 2, 3]]\<rparr>"
    by (simp add: first_pick_def scan e0 hi h3 e1)
  have lb: "large_blocks ?h [0, Suc 0, 2, 3] 6 3 = [0, Suc 0]"
    by (simp add: large_blocks_def sizes)
  have sp: "second_pick highest_index ?h st
        \<lparr>chosen = 3, extra_segments = 6, evicts_now = [3], calls = [[0, 1, 2, 3]]\<rparr>
      = Inr \<lparr>chosen = 1, extra_segments = to_int32 (6 - 10), evicts_now = [3, 1],
             calls = [[0, 1, 2, 3], [0, 1]]\<rparr>"
    by (simp add: second_pick_def scan lb hi sizes)
  have ub: "update_blk st = None"
    by (simp add: scan)
  show ?thesis
    unfolding findCompressedDataReplacement_def st_def [symmetric] Let_def fp sum.case sp ub
    by simp
qed

text \<open>
  C1, amended: in the four-way set whose ways 0, 1 and 2 are valid, hold other tags and
  need 20, 10 and 5 segments, with any valid block in way 3, a request of 3 segments and
  the highest-index stub. If way 3 is the matched block and is being updated, the call
  returns way 3, evicts way 2 then way 1, and asks the policy over ways 0, 1, 2 and then
  over ways 0, 1. Otherwise it returns way 1, evicts way 3 then way 1, and asks the
  policy over all four ways and then over ways 0, 1.
\<close>

theorem forced_multi_eviction:
  assumes "valid b3"
  shows "findCompressedDataReplacement highest_index (forced_heap b3) [0, 1, 2, 3] 9 False 192 []
           update_expansion
         = (if matchTag b3 9 False \<and> update_expansion
            then Inr \<lparr>target = 3, evicted = [2, 1], consulted = [[0, 1, 2], [0, 1]]\<rparr>
            else Inr \<lparr>target = 1, evicted = [3, 1], consulted = [[0, 1, 2, 3], [0, 1]]\<rparr>)"
  using assms forced_update_path forced_resident_path by simp

theorem forced_multi_eviction_witness:
  "valid (mk_blk True 4 False 4096)
   \<and> findCompressedDataReplacement highest_index (forced_heap (mk_blk True 4 False 4096))
        [0, 1, 2, 3] 9 False 192 [] True
       = Inr \<lparr>target = 1, evicted = [3, 1], consulted = [[0, 1, 2, 3], [0, 1]]\<rparr>"
proof -
  have v: "valid (mk_blk True 4 False 4096)"
    by (simp add: mk_blk_def)
  from forced_multi_eviction [OF v, of True] v show ?thesis
    by (simp add: matchTag_def mk_blk_def)
qed

subsection \<open>The segment budget\<close>

text \<open>
  C5: the budget of 32 segments does not survive an install. An eight-way set holds
  valid blocks of 6, 6, 6, 6, 5, 1, 1 and 1 segments (32 in all); a request of 8 segments
  (one uncompressed line) makes the decision evict way 7 only, since no other block alone
  covers the remaining 7 segments; after the caller has invalidated the evicted block and
  written the line, the valid entries hold 39 segments.
\<close>

theorem budget_exceeded_after_install:
  "occupied_segments full_heap [0, 1, 2, 3, 4, 5, 6, 7] = 32
   \<and> findCompressedDataReplacement highest_index full_heap [0, 1, 2, 3, 4, 5, 6, 7] 9 False 512
         [] False
       = Inr \<lparr>target = 7, evicted = [7], consulted = [[0, 1, 2, 3, 4, 5, 6, 7]]\<rparr>
   \<and> occupied_segments
         (install full_heap \<lparr>target = 7, evicted = [7], consulted = [[0, 1, 2, 3, 4, 5, 6, 7]]\<rparr>
            9 False 512 2) [0, 1, 2, 3, 4, 5, 6, 7] = 39"
proof -
  have a: "occupied_segments full_heap [0, 1, 2, 3, 4, 5, 6, 7] = 32"
    by (simp add: occupied_segments_def full_heap_def mk_blk_def isValid_def segs_def)
  have b: "findCompressedDataReplacement highest_index full_heap [0, 1, 2, 3, 4, 5, 6, 7] 9 False
         512 [] False
       = Inr \<lparr>target = 7, evicted = [7], consulted = [[0, 1, 2, 3, 4, 5, 6, 7]]\<rparr>"
    by (simp add: full_heap_def mk_blk_def matchTag_def isValid_def scan_step_def scan_init_def
      segs_def to_uint32_def findCompressedDataReplacement_def first_pick_def second_pick_def
      initial_extra_def needed_segments_def to_size_t_def to_int32_def max_set_segments_def
      highest_index_def large_blocks_def)
  have c: "occupied_segments
         (install full_heap \<lparr>target = 7, evicted = [7], consulted = [[0, 1, 2, 3, 4, 5, 6, 7]]\<rparr>
            9 False 512 2) [0, 1, 2, 3, 4, 5, 6, 7] = 39"
    by (simp add: occupied_segments_def install_def invalidate_def full_heap_def mk_blk_def
        isValid_def segs_def)
  from a b c show ?thesis by simp
qed

subsection \<open>Fresh entries\<close>

text \<open>
  C10: a newly constructed entry has compressed size 0, is uncompressed and is in
  coherence state \<open>I\<close>; so whatever its validity flag, it satisfies the invariant that
  a not-valid entry is in state Invalid.
\<close>

theorem new_entry_defaults:
  "getCompressedSize (new_ReplaceableEntry s w) = 0
   \<and> \<not> getCompressionStatus (new_ReplaceableEntry s w)
   \<and> getCoherenceState (new_ReplaceableEntry s w) = CHR ''I''
   \<and> invalid_means_I v (new_ReplaceableEntry s w)"
  by (simp add: new_ReplaceableEntry_def getCompressedSize_def getCompressionStatus_def
      getCoherenceState_def invalid_means_I_def)

theorem new_entry_defaults_witness:
  "invalid_means_I False (new_ReplaceableEntry 0 0)
   \<and> getCoherenceState (new_ReplaceableEntry 0 0) = CHR ''I''
   \<and> getCompressedSize (new_ReplaceableEntry 0 0) = 0"
  using new_entry_defaults [of 0 0 False] by simp

subsection \<open>The data accessor\<close>

text \<open>
  The two exceptions are thrown exactly when the index is beyond the table or the row,
  and when the slot addressed holds a null pointer.
\<close>

lemma getEntryData_throws:
  "(\<exists>m. getEntryData pol set_no off c_status c_size = Inl (OutOfRange m))
     \<longleftrightarrow> length (sets pol) \<le> set_no \<or> length (sets pol ! set_no) \<le> off"
  "(\<exists>m. getEntryData pol set_no off c_status c_size = Inl (RuntimeError m))
     \<longleftrightarrow> set_no < length (sets pol) \<and> off < length (sets pol ! set_no)
          \<and> sets pol ! set_no ! off = None"
  by (auto simp: getEntryData_def Let_def split: option.splits)

text \<open>
  C8: on a valid index with a non-null entry, \<open>getEntryData\<close> does not return the data
  of that entry. In a set of nine slots, asking for slot 0 with a compressed size of one
  segment returns the entry pointer stored in slot 8; asking for slot 0 uncompressed reads
  slot 64, beyond the row, with no exception.
\<close>

theorem getEntryData_returns_other_slot:
  "getEntry nine_slots 0 0 = Inr (Some 100)
   \<and> getEntryData nine_slots 0 0 True 1 = Inr (Some 108)
   \<and> getEntryData nine_slots 0 0 False 0 = Inl OutOfBoundsAccess"
  by (simp add: getEntry_def getEntryData_def nine_slots_def to_size_t_def to_uint32_def upt_rec)

subsection \<open>Placing entries\<close>

text \<open>
  C6: the division rule is not the only decomposition in the file. For two sets of two
  ways and index 1, the first \<open>setEntry\<close> stores the entry at set 0, way 1 and tells the
  entry so; the second \<open>setEntry\<close> stores it at set 1, way 0 and leaves the entry's
  position untouched, and it sends the indices 0 and 2 to the same slot.
\<close>

theorem setEntry_rules_disagree:
  "setEntry two_by_two unplaced 10 1
     = Inr (two_by_two\<lparr>sets := [[None, Some 10], [None, None]]\<rparr>,
            unplaced(10 := setPosition (unplaced 10) 0 1))
   \<and> setEntry_mask two_by_two unplaced 10 1
     = Inr (two_by_two\<lparr>sets := [[None, None], [Some 10, None]]\<rparr>, unplaced)
   \<and> setEntry_mask two_by_two unplaced 10 0
     = Inr (two_by_two\<lparr>sets := [[Some 10, None], [None, None]]\<rparr>, unplaced)
   \<and> setEntry_mask two_by_two unplaced 12 2
     = Inr (two_by_two\<lparr>sets := [[Some 12, None], [None, None]]\<rparr>, unplaced)"
  by (simp add: setEntry_def setEntry_mask_def two_by_two_def to_long_long_def cdiv_def crem_def
      Let_def)

subsection \<open>Construction\<close>

lemma nat_and_pred_zero:
  fixes n :: nat
  assumes "0 < n" "n AND (n - 1) = 0"
  shows "\<exists>k. n = 2 ^ k"
  using assms
proof (induction n rule: less_induct)
  case (less n)
  show ?case
  proof (cases "even n")
    case True
    then obtain m where m: "n = 2 * m" by (elim evenE)
    with less.prems have mpos: "0 < m" by simp
    have pred: "(2 * m - Suc 0) div 2 = m - Suc 0"
      using mpos by (cases m) simp_all
    have "n AND (n - 1) = 2 * (m AND (m - 1))"
      by (subst and_nat_rec) (simp add: pred m)
    with less.prems have "m AND (m - 1) = 0" by simp
    moreover have "m < n" using m mpos by simp
    ultimately obtain k where "m = 2 ^ k"
      using less.IH mpos by blast
    with m have "n = 2 ^ Suc k" by simp
    then show ?thesis by blast
  next
    case False
    then obtain m where m: "n = 2 * m + 1" by (elim oddE)
    have "n AND (n - 1) = 2 * (m AND m)"
      by (subst and_nat_rec) (simp add: m)
    with less.prems have "m = 0" by simp
    with m have "n = 2 ^ 0" by simp
    then show ?thesis by blast
  qed
qed

lemma pow2_and_pred:
  assumes "k < 32"
  shows "(2 ^ k :: 32 word) \<noteq> 0 \<and> (2 ^ k :: 32 word) AND (2 ^ k - 1) = 0"
proof
  show "(2 ^ k :: 32 word) \<noteq> 0"
    using assms by simp
  have "mask k AND (2 ^ k :: 32 word) = 0"
    by (simp only: and_exp_eq_0_iff_not_bit bit_mask_iff) simp
  then have "(2 ^ k :: 32 word) AND mask k = 0"
    by (simp only: and.commute)
  then show "(2 ^ k :: 32 word) AND (2 ^ k - 1) = 0"
    by (simp add: mask_eq_decr_exp)
qed

lemma isPowerOf2_iff: "isPowerOf2 x \<longleftrightarrow> (\<exists>k<32. x = 2 ^ k)"
proof
  assume "isPowerOf2 x"
  then have nz: "x \<noteq> 0" and z: "x AND (x - 1) = 0"
    by (simp_all add: isPowerOf2_def)
  from z have "unat (x AND (x - 1)) = 0" by simp
  then have "unat x AND unat (x - 1) = 0"
    by (simp only: unsigned_and_eq)
  moreover from nz have "unat (x - 1) = unat x - 1"
    by (rule unat_minus_one)
  ultimately have "unat x AND (unat x - 1) = 0"
    by (simp only:)
  moreover from nz have "0 < unat x"
    by (simp add: unat_gt_0)
  ultimately obtain k where k: "unat x = 2 ^ k"
    using nat_and_pred_zero by blast
  have "unat x < 2 ^ 32"
    using unsigned_less [of x, where 'a = nat] by simp
  with k have lt: "(2::nat) ^ k < 2 ^ 32" by simp
  have "k < 32"
    by (rule power_less_imp_less_exp [OF _ lt]) simp
  moreover have "x = 2 ^ k"
  proof -
    have "x = word_of_nat (unat x)" by simp
    also have "\<dots> = word_of_nat (2 ^ k)" by (simp only: k)
    also have "\<dots> = 2 ^ k" by simp
    finally show ?thesis .
  qed
  ultimately show "\<exists>k<32. x = 2 ^ k" by blast
next
  assume "\<exists>k<32. x = 2 ^ k"
  then show "isPowerOf2 x"
    using pow2_and_pred by (auto simp: isPowerOf2_def)
qed


lemma numSets_of_Some_assoc: "numSets_of p = Some n \<Longrightarrow> assoc_of p \<noteq> 0"
  by (auto simp: numSets_of_def Let_def split: if_splits)

text \<open>
  The indexing policy is constructed exactly when the initialiser yields a number of
  sets that is a power of two. An associativity of 0 makes the divisor 0, so the
  division traps before the test on \<open>assoc\<close> is reached.
\<close>

lemma BaseIndexingPolicy_init_fails:
  "isl (BaseIndexingPolicy_init p numSegments)
     \<longleftrightarrow> \<not> (\<exists>k<32. numSets_of p = Some (2 ^ k))"
proof (cases "numSets_of p")
  case None
  then show ?thesis by (simp add: BaseIndexingPolicy_init_def)
next
  case (Some n)
  from Some have "assoc_of p \<noteq> 0" by (rule numSets_of_Some_assoc)
  with Some show ?thesis
    by (simp add: BaseIndexingPolicy_init_def isPowerOf2_iff)
qed

lemma zero_assoc_traps:
  "assoc_of p = 0 \<Longrightarrow> BaseIndexingPolicy_init p numSegments = Inl DivideByZero"
  by (simp add: BaseIndexingPolicy_init_def numSets_of_def)

lemma BaseSetAssoc_init_fails:
  "isl (BaseSetAssoc_init q)
     \<longleftrightarrow> t_indexing_policy q = None
         \<or> (word_of_nat (t_block_size q) :: 32 word) < 4
         \<or> \<not> (\<exists>k<32. (word_of_nat (t_block_size q) :: 32 word) = 2 ^ k)"
proof (cases "t_block_size q = 0")
  case True
  then show ?thesis by (simp add: BaseSetAssoc_init_def)
next
  case False
  then show ?thesis
    by (cases "t_indexing_policy q") (simp_all add: BaseSetAssoc_init_def isPowerOf2_iff)
qed

lemma BaseIndexingPolicy_init_succeeds:
  assumes "\<not> isl (BaseIndexingPolicy_init p numSegments)"
  shows "\<exists>pol. BaseIndexingPolicy_init p numSegments = Inr pol
           \<and> assoc pol = assoc_of p \<and> assoc pol \<noteq> 0
           \<and> numSets_of p = Some (numSets pol) \<and> isPowerOf2 (numSets pol)
           \<and> sets pol = replicate (unat (numSets pol)) (replicate numSegments None)"
  using assms
  by (cases "numSets_of p") (auto simp: BaseIndexingPolicy_init_def split: if_splits)

lemma floorLog2_values: "floorLog2 64 = 6" "floorLog2 2 = 1" "floorLog2 4 = 2"
  by (simp_all add: floorLog2_def compute_floorlog)

lemma two_by_two_constructed:
  "BaseIndexingPolicy_init \<lparr>p_size = 256, p_entry_size = 64, p_assoc = 2\<rparr> 2 = Inr two_by_two"
proof -
  have r: "replicate 2 x = [x, x]" for x :: "'a"
    by (simp add: numeral_2_eq_2)
  show ?thesis
    by (simp add: BaseIndexingPolicy_init_def numSets_of_def assoc_of_def isPowerOf2_def
        floorLog2_values two_by_two_def r)
qed

text \<open>
  C7: the indexing policy does not reject every non-positive associativity. Configured
  with 256 bytes, entries of 64 bytes and associativity \<open>- 67108863\<close>, the unsigned
  member is 4227858433, the 32-bit product with the entry size is 64, the number of sets
  is 4, and construction returns a policy. With associativity 0 construction fails, by
  the division trap and not by the test that carries the message.
\<close>

theorem negative_associativity_accepted:
  "p_assoc negative_assoc_params = - 67108863
   \<and> BaseIndexingPolicy_init negative_assoc_params 4
       = Inr \<lparr>assoc = 4227858433, numSets = 4, setShift = 6, setMask = 3,
              sets = replicate 4 (replicate 4 None), tagShift = 8\<rparr>
   \<and> BaseIndexingPolicy_init zero_assoc_params 4 = Inl DivideByZero"
proof -
  have a: "assoc_of negative_assoc_params = 4227858433"
    by (simp add: assoc_of_def negative_assoc_params_def)
  have d: "(word_of_int 64 * 4227858433 :: 32 word) = 64"
    by simp
  have n: "numSets_of negative_assoc_params = Some 4"
    unfolding numSets_of_def a Let_def
    by (simp add: negative_assoc_params_def d)
  have ok: "BaseIndexingPolicy_init negative_assoc_params 4
       = Inr \<lparr>assoc = 4227858433, numSets = 4, setShift = 6, setMask = 3,
              sets = replicate 4 (replicate 4 None), tagShift = 8\<rparr>"
    unfolding BaseIndexingPolicy_init_def n a
    by (simp add: isPowerOf2_def floorLog2_values negative_assoc_params_def)
  have z: "BaseIndexingPolicy_init zero_assoc_params 4 = Inl DivideByZero"
    by (rule zero_assoc_traps) (simp add: assoc_of_def zero_assoc_params_def)
  from ok z show ?thesis
    by (simp add: negative_assoc_params_def)
qed

subsection \<open>The division rule\<close>

text \<open>
  The first \<open>setEntry\<close> on a policy with a nonzero \<open>assoc\<close>, at most \<open>2 ^ 31\<close> sets (a
  power of two in 32 bits is no larger) and rows at least \<open>assoc\<close> wide: the entry lands at set \<open>index / assoc\<close>, way
  \<open>index % assoc\<close>, the lookup there finds it, and the entry is told the same position.
\<close>

lemma cdiv_nonneg: "0 \<le> a \<Longrightarrow> 0 < b \<Longrightarrow> cdiv a b = a div b"
  by (cases "a = 0") (simp_all add: cdiv_def)

lemma to_long_long_small: "0 \<le> x \<Longrightarrow> x < 2 ^ 63 \<Longrightarrow> to_long_long x = x"
  by (simp add: to_long_long_def)

lemma unat_word_of_nat_small:
  "n < 2 ^ 32 \<Longrightarrow> unat (word_of_nat n :: 32 word) = n"
  by (simp add: unat_of_nat)

lemma setEntry_division_roundtrip:
  assumes apos: "assoc pol \<noteq> 0"
    and nbound: "unat (numSets pol) \<le> 2 ^ 31"
    and idx: "index < unat (assoc pol) * unat (numSets pol)"
    and rows: "length (sets pol) = unat (numSets pol)"
    and width: "\<forall>row \<in> set (sets pol). unat (assoc pol) \<le> length row"
  shows "\<exists>pol' eh'. setEntry pol eh entry index = Inr (pol', eh')
           \<and> getEntry pol' (index div unat (assoc pol)) (index mod unat (assoc pol))
               = Inr (Some entry)
           \<and> getSet (eh' entry) = word_of_nat (index div unat (assoc pol))
           \<and> getWay (eh' entry) = word_of_nat (index mod unat (assoc pol))"
proof -
  define a where "a = unat (assoc pol)"
  define q where "q = index div a"
  define r where "r = index mod a"
  have a_pos: "0 < a"
    using apos by (simp add: a_def unat_gt_0)
  have a_int: "uint (assoc pol) = int a"
    by (simp add: a_def)
  have a_lt: "a < 2 ^ 32"
    unfolding a_def using unsigned_less [of "assoc pol", where 'a = nat] by simp
  have q_lt: "q < unat (numSets pol)"
    unfolding q_def using idx a_pos by (simp add: a_def [symmetric] less_mult_imp_div_less mult.commute)
  have r_lt: "r < a"
    unfolding r_def using a_pos by simp
  have "unat (numSets pol) < 2 ^ 32"
    using unsigned_less [of "numSets pol", where 'a = nat] by simp
  with q_lt have q_small: "q < 2 ^ 32" by simp
  from r_lt a_lt have r_small: "r < 2 ^ 32" by simp
  have "a * unat (numSets pol) \<le> a * 2 ^ 31"
    using nbound by simp
  also have "\<dots> < 2 ^ 32 * 2 ^ 31"
    using a_lt by simp
  finally have "index < 2 ^ 63"
    using idx by (simp add: a_def [symmetric])
  then have "int index < 2 ^ 63"
    by (metis of_nat_less_iff of_nat_numeral of_nat_power)
  then have ll: "to_long_long (int index) = int index"
    by (simp add: to_long_long_small)
  have dv: "cdiv (int index) (int a) = int q"
    using a_pos by (simp add: cdiv_nonneg q_def zdiv_int)
  have rm: "crem (int index) (int a) = int r"
  proof -
    have "int index - (int index div int a) * int a = int index mod int a"
      by (rule minus_div_mult_eq_mod)
    then show ?thesis
      by (simp add: crem_def dv q_def r_def zdiv_int zmod_int)
  qed
  have uq: "unat (word_of_nat q :: 32 word) = q"
    using q_small by (rule unat_word_of_nat_small)
  have ur: "unat (word_of_nat r :: 32 word) = r"
    using r_small by (rule unat_word_of_nat_small)
  have in_range: "(word_of_nat q :: 32 word) < numSets pol"
    by (simp add: word_less_nat_alt uq q_lt)
  have q_row: "q < length (sets pol)"
    using q_lt rows by simp
  then have "sets pol ! q \<in> set (sets pol)"
    by simp
  with width have "a \<le> length (sets pol ! q)"
    by (simp add: a_def)
  with r_lt have r_col: "r < length (sets pol ! q)"
    by simp
  have res: "setEntry pol eh entry index
      = Inr (pol\<lparr>sets := (sets pol)[q := (sets pol ! q)[r := Some entry]]\<rparr>,
             eh(entry := setPosition (eh entry) (word_of_nat q) (word_of_nat r)))"
    using in_range q_row r_col a_pos apos
    unfolding setEntry_def a_int
    by (simp add: ll dv rm Let_def uq ur)
  have look: "getEntry (pol\<lparr>sets := (sets pol)[q := (sets pol ! q)[r := Some entry]]\<rparr>) q r
      = Inr (Some entry)"
    using q_row r_col by (simp add: getEntry_def)
  show ?thesis
    unfolding res a_def [symmetric] q_def [symmetric] r_def [symmetric]
    using look by (simp add: getSet_def getWay_def setPosition_def)
qed

end
